theory Spec2Isabelle
  imports Main "HOL-Library.Multiset"
begin

section \<open>Data model of replace\_atoms.py\<close>

text \<open>
  The script raises Python exceptions; the model returns them as values, \<open>Inl\<close> of an
  \<open>error\<close>. \<open>ValueError\<close> carries the place it comes from, since \<open>random.sample\<close> and
  \<open>min\<close> both raise this exception class. \<open>StopIteration\<close> is what the built-in
  \<open>next\<close> raises on an exhausted iterator, \<open>IndexError\<close> what \<open>atoms[i]\<close> raises out
  of range.
\<close>

datatype value_error = SampleLargerThanPopulation | MinEmptySequence

datatype error = FormatError | StopIteration | ValueError value_error | IndexError

text \<open>
  An atom is a dictionary with the seven keys of \<open>GRO_FIELDS\<close>; it is a record here.
  The coordinates are Python floats: their type is the parameter \<open>'f\<close>, and the two
  places where the script converts them (the built-in \<open>float\<close> in the reader and the
  format \<open>8.3f\<close> in the writer) are parameters \<open>to_float\<close> and \<open>fmt_float\<close> of
  the functions below. The keys \<open>x\<close>, \<open>y\<close>, \<open>z\<close> are the fields \<open>coord_x\<close>,
  \<open>coord_y\<close>, \<open>coord_z\<close>. The atoms of a list are separate objects (the reader builds
  one dictionary per line), so updating one in place is updating one position of the list.
\<close>

record 'f atom =
  resid :: int
  resname :: string
  atom_name :: string
  atomid :: int
  coord_x :: 'f
  coord_y :: 'f
  coord_z :: 'f

section \<open>Strings and numbers of the Python library\<close>

text \<open>
  \<open>str.strip()\<close> removes the ASCII white space (space, tab, line feed, vertical tab,
  form feed, carriage return) at both ends; \<open>s[lo:hi]\<close> with \<open>0 \<le> lo \<le> hi\<close> is the
  slice, cut short at the end of the string.
\<close>

definition isspace :: "char \<Rightarrow> bool" where
  "isspace c \<longleftrightarrow> c \<in> set [CHR '' '', CHR 0x09, CHR 0x0A, CHR 0x0B, CHR 0x0C, CHR 0x0D]"

definition strip :: "string \<Rightarrow> string" where
  "strip s = rev (dropWhile isspace (rev (dropWhile isspace s)))"

definition slice :: "nat \<Rightarrow> nat \<Rightarrow> string \<Rightarrow> string" where
  "slice lo hi s = take (hi - lo) (drop lo s)"

text \<open>
  \<open>int(s)\<close> on a string: white space around is ignored, then an optional sign and at
  least one decimal digit, nothing else; any other text raises \<open>ValueError\<close>, which is
  \<open>None\<close> here.
\<close>

definition isdigit :: "char \<Rightarrow> bool" where
  "isdigit c \<longleftrightarrow> c \<in> set ''0123456789''"

definition digit_value :: "char \<Rightarrow> nat" where
  "digit_value c = of_char c - 48"

definition py_int :: "string \<Rightarrow> int option" where
  "py_int s =
     (let t = strip s;
          negative = (t \<noteq> [] \<and> hd t = CHR ''-'');
          ds = (if t \<noteq> [] \<and> (hd t = CHR ''-'' \<or> hd t = CHR ''+'') then tl t else t)
      in if ds \<noteq> [] \<and> list_all isdigit ds
         then Some ((if negative then - 1 else 1)
                    * int (foldl (\<lambda>n c. 10 * n + digit_value c) 0 ds))
         else None)"

text \<open>The decimal text of an integer, and padding to a width as the format does it.\<close>

function str_nat :: "nat \<Rightarrow> string" where
  "str_nat n = (if n < 10 then [char_of (48 + n)]
                else str_nat (n div 10) @ [char_of (48 + n mod 10)])"
  by pat_completeness auto
termination
  by (relation "measure id") auto

declare str_nat.simps [simp del]

definition str_int :: "int \<Rightarrow> string" where
  "str_int i = (if i < 0 then CHR ''-'' # str_nat (nat (- i)) else str_nat (nat i))"

definition rjust :: "nat \<Rightarrow> string \<Rightarrow> string" where
  "rjust width s = replicate (width - length s) CHR '' '' @ s"

definition ljust :: "nat \<Rightarrow> string \<Rightarrow> string" where
  "ljust width s = s @ replicate (width - length s) CHR '' ''"

section \<open>Reading and writing\<close>

text \<open>
  One atom line, by the columns of \<open>GRO_FIELDS\<close>:
  \<^verbatim>\<open>
  GRO_FIELDS = {
      "resid": ((0, 5), int),       "resname": ((5, 10), str),
      "atom_name": ((10, 15), str), "atomid": ((15, 20), int),
      "x": ((20, 28), float), "y": ((28, 36), float), "z": ((36, 44), float),
  }
  dict(((key, convert(prev_line[begin:end].strip()))
        for key, ((begin, end), convert) in GRO_FIELDS.items()))
  \<close>
  A \<open>ValueError\<close> of any conversion becomes \<open>FormatError\<close> in \<open>read_gro\<close>; the order
  in which the conversions run does not change the result.
\<close>

definition decode :: "(string \<Rightarrow> 'f option) \<Rightarrow> string \<Rightarrow> error + 'f atom" where
  "decode to_float line =
     (case py_int (strip (slice 0 5 line)) of None \<Rightarrow> Inl FormatError | Some r \<Rightarrow>
     (case py_int (strip (slice 15 20 line)) of None \<Rightarrow> Inl FormatError | Some a \<Rightarrow>
     (case to_float (strip (slice 20 28 line)) of None \<Rightarrow> Inl FormatError | Some fx \<Rightarrow>
     (case to_float (strip (slice 28 36 line)) of None \<Rightarrow> Inl FormatError | Some fy \<Rightarrow>
     (case to_float (strip (slice 36 44 line)) of None \<Rightarrow> Inl FormatError | Some fz \<Rightarrow>
        Inr \<lparr>resid = r, resname = strip (slice 5 10 line),
             atom_name = strip (slice 10 15 line), atomid = a,
             coord_x = fx, coord_y = fy, coord_z = fz\<rparr>)))))"

text \<open>
  \<^verbatim>\<open>
  def stop_at_empty_line(iterator):
      for line in iterator:
          if line.strip() == "":
              return
          yield line
  \<close>
\<close>

fun stop_at_empty_line :: "string list \<Rightarrow> string list" where
  "stop_at_empty_line [] = []"
| "stop_at_empty_line (line # iterator) =
     (if strip line = [] then [] else line # stop_at_empty_line iterator)"

text \<open>
  \<^verbatim>\<open>
  def read_gro(lines):
      lines = iter(lines)
      title = next(lines)
      next(lines)
      atoms = []
      prev_line = next(lines)
      for line in stop_at_empty_line(lines):
          try:
              atoms.append(dict(...))
              prev_line = line
          except ValueError:
              raise FormatError
      box = prev_line
      return (title, atoms, box)
  \<close>
  \<open>read_atoms\<close> is the loop, with \<open>atoms\<close> and \<open>prev_line\<close> as its state; each of
  the three calls of \<open>next\<close> raises \<open>StopIteration\<close> when the lines are used up.
\<close>

fun read_atoms ::
  "(string \<Rightarrow> 'f option) \<Rightarrow> 'f atom list \<Rightarrow> string \<Rightarrow> string list
     \<Rightarrow> error + ('f atom list \<times> string)" where
  "read_atoms to_float atoms prev_line [] = Inr (atoms, prev_line)"
| "read_atoms to_float atoms prev_line (line # rest) =
     (case decode to_float prev_line of
        Inl e \<Rightarrow> Inl e
      | Inr atom \<Rightarrow> read_atoms to_float (atoms @ [atom]) line rest)"

definition read_gro ::
  "(string \<Rightarrow> 'f option) \<Rightarrow> string list \<Rightarrow> error + (string \<times> 'f atom list \<times> string)" where
  "read_gro to_float lines =
     (case lines of
        [] \<Rightarrow> Inl StopIteration
      | title # after_title \<Rightarrow>
     (case after_title of
        [] \<Rightarrow> Inl StopIteration
      | natoms_line # after_count \<Rightarrow>
     (case after_count of
        [] \<Rightarrow> Inl StopIteration
      | prev_line # rest \<Rightarrow>
     (case read_atoms to_float [] prev_line (stop_at_empty_line rest) of
        Inl e \<Rightarrow> Inl e
      | Inr (atoms, box) \<Rightarrow> Inr (title, atoms, box)))))"

text \<open>
  \<^verbatim>\<open>
  def write_gro(title, atoms, box):
      yield title
      yield '{0}\n'.format(len(atoms))
      for atom in atoms:
          yield ('{resid:>5}{resname:<5}{atom_name:>5}{atomid:>5}'
                  '{x:8.3f}{y:8.3f}{z:8.3f}\n').format(**atom)
      yield box
  \<close>
\<close>

definition encode :: "('f \<Rightarrow> string) \<Rightarrow> 'f atom \<Rightarrow> string" where
  "encode fmt_float atom =
     rjust 5 (str_int (resid atom)) @ ljust 5 (resname atom)
     @ rjust 5 (atom_name atom) @ rjust 5 (str_int (atomid atom))
     @ fmt_float (coord_x atom) @ fmt_float (coord_y atom) @ fmt_float (coord_z atom)
     @ [CHR 0x0A]"

definition write_gro :: "('f \<Rightarrow> string) \<Rightarrow> string \<Rightarrow> 'f atom list \<Rightarrow> string \<Rightarrow> string list" where
  "write_gro fmt_float title atoms box =
     title # (str_nat (length atoms) @ [CHR 0x0A]) # map (encode fmt_float) atoms @ [box]"

section \<open>Selecting, altering, reordering, renumbering\<close>

text \<open>
  \<^verbatim>\<open>
  def select(atoms, key, value):
      return (i for i, atom in enumerate(atoms) if atom[key] == value)
  \<close>
  The key is given as the selector of the field, so \<open>atom[key]\<close> is \<open>key atom\<close>.
\<close>

definition select :: "'a list \<Rightarrow> ('a \<Rightarrow> 'v) \<Rightarrow> 'v \<Rightarrow> nat list" where
  "select atoms key val =
     map fst (filter (\<lambda>(i, atom). key atom = val) (enumerate 0 atoms))"

text \<open>
  \<^verbatim>\<open>
  def alter_atoms(atoms, indices, resname, atom_name):
      for i in indices:
          atoms[i]['resname'] = resname
          atoms[i]['atom_name'] = atom_name
  \<close>
  The list is updated in place; the model returns the updated list.
\<close>

fun alter_atoms :: "'f atom list \<Rightarrow> nat list \<Rightarrow> string \<Rightarrow> string \<Rightarrow> error + 'f atom list" where
  "alter_atoms atoms [] new_resname new_atom_name = Inr atoms"
| "alter_atoms atoms (i # indices) new_resname new_atom_name =
     (if i < length atoms
      then alter_atoms
             (atoms[i := (atoms ! i)\<lparr>resname := new_resname, atom_name := new_atom_name\<rparr>])
             indices new_resname new_atom_name
      else Inl IndexError)"

text \<open>
  \<^verbatim>\<open>
  def reorder(length, insertions, index):
      for i in xrange(0, index):
          if not i in insertions:
              yield i
      for i in insertions:
          yield i
      for i in xrange(index, length):
          if not i in insertions:
              yield i
  \<close>
  The generator is consumed whole by its only caller; the model is the list it yields.
\<close>

definition reorder :: "nat \<Rightarrow> nat list \<Rightarrow> nat \<Rightarrow> nat list" where
  "reorder len insertions index =
     filter (\<lambda>i. i \<notin> set insertions) [0..<index]
     @ insertions
     @ filter (\<lambda>i. i \<notin> set insertions) [index..<len]"

text \<open>
  \<^verbatim>\<open>
  def iter_order(atoms, indices):
      for i in indices:
          yield atoms[i]
  \<close>
\<close>

fun iter_order :: "'a list \<Rightarrow> nat list \<Rightarrow> error + 'a list" where
  "iter_order atoms [] = Inr []"
| "iter_order atoms (i # indices) =
     (if i < length atoms
      then (case iter_order atoms indices of
              Inl e \<Rightarrow> Inl e
            | Inr rest \<Rightarrow> Inr (atoms ! i # rest))
      else Inl IndexError)"

text \<open>
  \<^verbatim>\<open>
  def renumber(atoms):
      resid = 0
      prev_resid = 0
      for atomid, atom in enumerate(atoms, start=1):
          if atom['resid'] != prev_resid:
              resid += 1
              prev_resid = atom['resid']
          atom['resid'] = resid%100000
          atom['atomid'] = atomid%100000
          yield atom
  \<close>
  \<open>renumber_from\<close> is the loop, with the counter \<open>rid\<close> (the variable \<open>resid\<close>),
  \<open>prev_resid\<close> and the position \<open>aid\<close> (the variable \<open>atomid\<close>) as its state.
\<close>

fun renumber_from :: "int \<Rightarrow> int \<Rightarrow> int \<Rightarrow> 'f atom list \<Rightarrow> 'f atom list" where
  "renumber_from rid prev_resid aid [] = []"
| "renumber_from rid prev_resid aid (atom # atoms) =
     (let rid' = (if resid atom \<noteq> prev_resid then rid + 1 else rid);
          prev_resid' = (if resid atom \<noteq> prev_resid then resid atom else prev_resid)
      in atom\<lparr>resid := rid' mod 100000, atomid := aid mod 100000\<rparr>
         # renumber_from rid' prev_resid' (aid + 1) atoms)"

definition renumber :: "'f atom list \<Rightarrow> 'f atom list" where
  "renumber atoms = renumber_from 0 0 1 atoms"

section \<open>replace\_atom and the command line\<close>

text \<open>
  \<open>random.sample(population, k)\<close> raises \<open>ValueError\<close> unless
  \<open>0 \<le> k \<le> len(population)\<close>; otherwise it returns the elements at \<open>k\<close> different
  positions of the population, chosen by the generator, in the order chosen. The choice is
  the argument \<open>picks\<close>, the list of the positions drawn; \<open>valid_draw\<close> says what every
  draw of the library satisfies.
\<close>

definition valid_draw :: "nat list \<Rightarrow> nat \<Rightarrow> int \<Rightarrow> bool" where
  "valid_draw picks n k \<longleftrightarrow>
     int (length picks) = k \<and> distinct picks \<and> (\<forall>j\<in>set picks. j < n)"

definition sample :: "nat list \<Rightarrow> 'a list \<Rightarrow> int \<Rightarrow> error + 'a list" where
  "sample picks population k =
     (if k < 0 \<or> int (length population) < k
      then Inl (ValueError SampleLargerThanPopulation)
      else Inr (map (\<lambda>j. population ! j) picks))"

text \<open>\<open>min\<close> of a list raises \<open>ValueError\<close> on the empty list.\<close>

definition py_min :: "nat list \<Rightarrow> error + nat" where
  "py_min xs = (case xs of
                  [] \<Rightarrow> Inl (ValueError MinEmptySequence)
                | x # rest \<Rightarrow> Inr (fold min rest x))"

text \<open>
  \<^verbatim>\<open>
  def replace_atom(atoms, key, value, resname, atom_name, nsub):
      candidates = list(select(atoms, key, value))
      selection = random.sample(candidates, nsub)
      alter_atoms(atoms, selection, resname, atom_name)
      new_order = reorder(len(atoms), selection, min(candidates))
      return renumber(iter_order(atoms, new_order))
  \<close>
  \<open>min(candidates)\<close> is evaluated when \<open>reorder\<close> is called, so its exception is raised
  by \<open>replace_atom\<close> itself. The result is the list that the returned generator yields
  (\<open>cli_main\<close> consumes it at once with \<open>list\<close>).
\<close>

definition replace_atom ::
  "nat list \<Rightarrow> 'f atom list \<Rightarrow> ('f atom \<Rightarrow> 'v) \<Rightarrow> 'v \<Rightarrow> string \<Rightarrow> string \<Rightarrow> int
     \<Rightarrow> error + 'f atom list" where
  "replace_atom picks atoms key val new_resname new_atom_name nsub =
     (let candidates = select atoms key val in
      case sample picks candidates nsub of
        Inl e \<Rightarrow> Inl e
      | Inr selection \<Rightarrow>
     (case alter_atoms atoms selection new_resname new_atom_name of
        Inl e \<Rightarrow> Inl e
      | Inr altered \<Rightarrow>
     (case py_min candidates of
        Inl e \<Rightarrow> Inl e
      | Inr anchor \<Rightarrow>
     (case iter_order altered (reorder (length altered) selection anchor) of
        Inl e \<Rightarrow> Inl e
      | Inr ordered \<Rightarrow> Inr (renumber ordered)))))"

text \<open>
  \<^verbatim>\<open>
  def cli_main():
      args = get_args(sys.argv[1:])
      title, atoms, box = read_gro(sys.stdin)
      modified_atoms = list(replace_atom(atoms, 'resname', args.oresname,
                                         args.nresname, args.natname,
                                         args.natoms))
      for line in write_gro(title, modified_atoms, box):
          print(line, end='')
  \<close>
  The parsed options are the record \<open>args\<close>; the result is the list of the lines printed.
\<close>

record args =
  natoms :: int
  oresname :: string
  nresname :: string
  natname :: string

definition cli_main ::
  "(string \<Rightarrow> 'f option) \<Rightarrow> ('f \<Rightarrow> string) \<Rightarrow> nat list \<Rightarrow> args \<Rightarrow> string list
     \<Rightarrow> error + string list" where
  "cli_main to_float fmt_float picks args stdin =
     (case read_gro to_float stdin of
        Inl e \<Rightarrow> Inl e
      | Inr (title, atoms, box) \<Rightarrow>
     (case replace_atom picks atoms resname (oresname args) (nresname args) (natname args)
             (natoms args) of
        Inl e \<Rightarrow> Inl e
      | Inr modified_atoms \<Rightarrow> Inr (write_gro fmt_float title modified_atoms box)))"

section \<open>Specification-side definitions and example data\<close>

text \<open>
  The residue counter as the specification words it: among the original \<open>resid\<close> values
  in traversal order, the number of positions whose value differs from the one before it,
  the first being compared with \<open>prev\<close>.
\<close>

fun count_changes :: "int \<Rightarrow> int list \<Rightarrow> int" where
  "count_changes prev [] = 0"
| "count_changes prev (r # rs) = (if r \<noteq> prev then 1 else 0) + count_changes r rs"

definition example_atom :: "int \<Rightarrow> string \<Rightarrow> int \<Rightarrow> int atom" where
  "example_atom r n a =
     \<lparr>resid = r, resname = n, atom_name = ''OW'', atomid = a,
      coord_x = 0, coord_y = 0, coord_z = 0\<rparr>"


text \<open>
  Example input for the reader: the coordinates are kept as their text, so \<open>float\<close> is
  stood for by a conversion that fails on the empty string only.
\<close>

definition example_to_float :: "string \<Rightarrow> string option" where
  "example_to_float s = (if s = [] then None else Some s)"

definition example_lines :: "string list" where
  "example_lines =
     [''    1SOL     OW    1   0.126   1.624   1.679'' @ [CHR 0x0A],
      ''    1SOL    HW1    2   0.190   1.661   1.747'' @ [CHR 0x0A]]"

definition example_footer :: string where
  "example_footer = ''   1.86206   1.86206   1.86206'' @ [CHR 0x0A]"

definition scenario_atoms :: "int atom list" where
  "scenario_atoms = [example_atom 1 ''SOL'' 1, example_atom 1 ''SOL'' 2, example_atom 1 ''SOL'' 3]"

section \<open>Properties of reorder\<close>

lemma filter_upt_sorted_list:
  "filter P [a..<b] = sorted_list_of_set {i. a \<le> i \<and> i < b \<and> P i}"
proof -
  have "sorted_wrt (<) (filter P [a..<b])"
    by (simp add: sorted_wrt_filter)
  moreover have "set (filter P [a..<b]) = {i. a \<le> i \<and> i < b \<and> P i}"
    by auto
  ultimately show ?thesis
    by (metis sorted_list_of_set.idem_if_sorted_distinct strict_sorted_iff)
qed

lemma upt_split_at: "anchor \<le> n \<Longrightarrow> [0..<anchor] @ [anchor..<n] = [0..<n]"
  using upt_add_eq_append[of 0 anchor "n - anchor"] by simp

lemma mset_reorder:
  assumes "distinct moved" and "set moved \<subseteq> {0..<n}" and "anchor \<le> n"
  shows "mset (reorder n moved anchor) = mset [0..<n]"
proof -
  let ?P = "\<lambda>i. i \<notin> set moved"
  have "mset (filter ?P [0..<n]) + mset (filter (\<lambda>i. \<not> ?P i) [0..<n]) = mset [0..<n]"
    by (metis mset_filter multiset_partition add.commute)
  moreover have "mset (filter (\<lambda>i. \<not> ?P i) [0..<n]) = mset moved"
  proof -
    have "distinct (filter (\<lambda>i. \<not> ?P i) [0..<n])" by simp
    moreover have "set (filter (\<lambda>i. \<not> ?P i) [0..<n]) = set moved"
      using assms(2) by auto
    ultimately show ?thesis
      using assms(1) by (metis set_eq_iff_mset_eq_distinct)
  qed
  moreover have "filter ?P [0..<n] = filter ?P [0..<anchor] @ filter ?P [anchor..<n]"
    using upt_split_at[OF assms(3)] by (metis filter_append)
  then have "mset (reorder n moved anchor) = mset (filter ?P [0..<n]) + mset moved"
    unfolding reorder_def by simp
  ultimately show ?thesis by simp
qed

text \<open>
  Claim C1. For distinct \<open>moved\<close> indices below \<open>n\<close> and an anchor \<open>anchor \<le> n\<close>,
  \<open>reorder n moved anchor\<close> is: the indices below the anchor that are not moved, in
  ascending order; then the moved indices in the order given; then the indices from the
  anchor up to \<open>n\<close> that are not moved, in ascending order. The result is a permutation
  of \<open>0..n-1\<close> (each index exactly once), and with nothing moved it is \<open>[0..<n]\<close>.
\<close>

theorem reorder_permutation:
  assumes "distinct moved" and "set moved \<subseteq> {0..<n}" and "anchor \<le> n"
  shows "reorder n moved anchor =
           sorted_list_of_set {i. i < anchor \<and> i \<notin> set moved}
           @ moved
           @ sorted_list_of_set {i. anchor \<le> i \<and> i < n \<and> i \<notin> set moved}
         \<and> mset (reorder n moved anchor) = mset [0..<n]
         \<and> distinct (reorder n moved anchor)
         \<and> set (reorder n moved anchor) = {0..<n}
         \<and> reorder n [] anchor = [0..<n]"
proof -
  have segs: "reorder n moved anchor =
           sorted_list_of_set {i. i < anchor \<and> i \<notin> set moved}
           @ moved
           @ sorted_list_of_set {i. anchor \<le> i \<and> i < n \<and> i \<notin> set moved}"
    unfolding reorder_def by (simp add: filter_upt_sorted_list)
  have m: "mset (reorder n moved anchor) = mset [0..<n]"
    using assms by (rule mset_reorder)
  have d: "distinct (reorder n moved anchor)"
    using m by (metis distinct_upt mset_eq_imp_distinct_iff)
  have s: "set (reorder n moved anchor) = {0..<n}"
    using m by (metis mset_eq_setD set_upt)
  have e: "reorder n [] anchor = [0..<n]"
    using upt_split_at[OF assms(3)] unfolding reorder_def by simp
  from segs m d s e show ?thesis by blast
qed

theorem reorder_permutation_witness:
  "distinct [3, 1::nat] \<and> set [3, 1::nat] \<subseteq> {0..<5} \<and> (1::nat) \<le> 5
   \<and> reorder 5 [3, 1] 1 = [0, 3, 1, 2, 4]
   \<and> mset (reorder 5 [3, 1] 1) = mset [0..<5]
   \<and> distinct (reorder 5 [3, 1] 1)
   \<and> set (reorder 5 [3, 1] 1) = {0..<5}
   \<and> reorder 5 [] 1 = [0..<5]"
proof -
  have h: "distinct [3, 1::nat]" "set [3, 1::nat] \<subseteq> {0..<5}" "(1::nat) \<le> 5"
    by simp_all
  have ev: "reorder 5 [3, 1] 1 = [0, 3, 1, 2, 4]"
    by (simp add: reorder_def upt_rec)
  from h ev reorder_permutation[OF h] show ?thesis
    by blast
qed

section \<open>Properties of renumber\<close>

lemma length_renumber_from [simp]:
  "length (renumber_from rid prev aid atoms) = length atoms"
  by (induction atoms arbitrary: rid prev aid) (simp_all add: Let_def)

lemma nth_renumber_from:
  "i < length atoms \<Longrightarrow>
   renumber_from rid prev aid atoms ! i =
     (atoms ! i)\<lparr>resid := (rid + count_changes prev (map resid (take (Suc i) atoms))) mod 100000,
                 atomid := (aid + int i) mod 100000\<rparr>"
proof (induction atoms arbitrary: rid prev aid i)
  case Nil
  then show ?case by simp
next
  case (Cons a atoms)
  show ?case
  proof (cases i)
    case 0
    then show ?thesis by (simp add: Let_def)
  next
    case (Suc j)
    with Cons.prems have j: "j < length atoms" by simp
    have prev': "(if resid a \<noteq> prev then resid a else prev) = resid a" by simp
    show ?thesis
      using Cons.IH[OF j] Suc
      by (simp add: Let_def prev' add.assoc add.commute add.left_commute)
  qed
qed

lemma count_changes_snoc:
  "count_changes prev (rs @ [r]) =
     count_changes prev rs + (if r \<noteq> last (prev # rs) then 1 else 0)"
  by (induction rs arbitrary: prev) simp_all

lemma count_changes_step:
  assumes "Suc i < length atoms"
  shows "count_changes prev (map resid (take (Suc (Suc i)) atoms)) =
         count_changes prev (map resid (take (Suc i) atoms))
         + (if resid (atoms ! Suc i) \<noteq> resid (atoms ! i) then 1 else 0)"
proof -
  have t: "take (Suc (Suc i)) atoms = take (Suc i) atoms @ [atoms ! Suc i]"
    using assms by (simp add: take_Suc_conv_app_nth)
  have i: "i < length atoms" using assms by simp
  have l: "last (prev # map resid (take (Suc i) atoms)) = resid (atoms ! i)"
    using i by (simp add: take_Suc_conv_app_nth)
  show ?thesis
    unfolding t using l by (simp add: count_changes_snoc del: take_Suc_Cons)
qed

lemma mod_succ_cases:
  fixes n :: int
  shows "(n + 1) mod 100000 = n mod 100000 + 1
         \<or> (n mod 100000 = 99999 \<and> (n + 1) mod 100000 = 0)"
proof (cases "n mod 100000 = 99999")
  case True
  then have "(n + 1) mod 100000 = (99999 + 1) mod 100000"
    by (metis mod_add_left_eq)
  with True show ?thesis by simp
next
  case False
  have "0 \<le> n mod 100000" "n mod 100000 < 100000" by simp_all
  with False have "n mod 100000 + 1 < 100000" "0 \<le> n mod 100000 + 1" by linarith+
  then have "(n mod 100000 + 1) mod 100000 = n mod 100000 + 1" by simp
  then show ?thesis by (simp add: mod_add_left_eq)
qed

lemma renumber_nth:
  "i < length atoms \<Longrightarrow>
   renumber atoms ! i =
     (atoms ! i)\<lparr>resid := count_changes 0 (map resid (take (Suc i) atoms)) mod 100000,
                 atomid := (int i + 1) mod 100000\<rparr>"
  unfolding renumber_def by (simp add: nth_renumber_from add.commute)

lemma renumber_adjacent:
  assumes "Suc i < length atoms"
  shows "(resid (atoms ! Suc i) = resid (atoms ! i)
            \<longrightarrow> resid (renumber atoms ! Suc i) = resid (renumber atoms ! i))
       \<and> (resid (atoms ! Suc i) \<noteq> resid (atoms ! i)
            \<longrightarrow> resid (renumber atoms ! Suc i) = resid (renumber atoms ! i) + 1
              \<or> (resid (renumber atoms ! i) = 99999 \<and> resid (renumber atoms ! Suc i) = 0))"
proof -
  let ?c = "count_changes 0 (map resid (take (Suc i) atoms))"
  have i: "i < length atoms" using assms by simp
  have a: "resid (renumber atoms ! i) = ?c mod 100000"
    using i by (simp add: renumber_nth)
  have b: "resid (renumber atoms ! Suc i) =
           (?c + (if resid (atoms ! Suc i) \<noteq> resid (atoms ! i) then 1 else 0)) mod 100000"
    using assms by (simp add: renumber_nth count_changes_step del: take_Suc_Cons)
  show ?thesis
    using a b mod_succ_cases[of ?c] by auto
qed

text \<open>
  Claim C2. \<open>renumber\<close> keeps the length of the sequence. The atom at position \<open>i\<close>
  (from 0) comes out with \<open>atomid\<close> equal to \<open>i + 1\<close> modulo 100000 and with \<open>resid\<close>
  equal to the residue counter modulo 100000, the counter being the number of positions up
  to \<open>i\<close> whose original \<open>resid\<close> differs from the tracked one (0 before the first
  atom, then the original \<open>resid\<close> of the atom before); the other fields are kept.
  Between neighbours the new \<open>resid\<close> does not decrease, except from 99999 to 0, and it
  changes exactly where the original \<open>resid\<close> changes.
\<close>

theorem renumber_spec:
  "length (renumber atoms) = length atoms
   \<and> (\<forall>i<length atoms.
         renumber atoms ! i =
           (atoms ! i)\<lparr>resid := count_changes 0 (map resid (take (Suc i) atoms)) mod 100000,
                       atomid := (int i + 1) mod 100000\<rparr>)
   \<and> (\<forall>i. Suc i < length atoms \<longrightarrow>
         (resid (renumber atoms ! i) \<le> resid (renumber atoms ! Suc i)
          \<or> (resid (renumber atoms ! i) = 99999 \<and> resid (renumber atoms ! Suc i) = 0))
         \<and> (resid (renumber atoms ! Suc i) \<noteq> resid (renumber atoms ! i)
              \<longleftrightarrow> resid (atoms ! Suc i) \<noteq> resid (atoms ! i)))"
proof (intro conjI allI impI)
  show "length (renumber atoms) = length atoms"
    by (simp add: renumber_def)
next
  fix i assume "i < length atoms"
  then show "renumber atoms ! i =
           (atoms ! i)\<lparr>resid := count_changes 0 (map resid (take (Suc i) atoms)) mod 100000,
                       atomid := (int i + 1) mod 100000\<rparr>"
    by (rule renumber_nth)
next
  fix i assume "Suc i < length atoms"
  from renumber_adjacent[OF this]
  show "resid (renumber atoms ! i) \<le> resid (renumber atoms ! Suc i)
          \<or> (resid (renumber atoms ! i) = 99999 \<and> resid (renumber atoms ! Suc i) = 0)"
    by (cases "resid (atoms ! Suc i) = resid (atoms ! i)") auto
next
  fix i assume "Suc i < length atoms"
  from renumber_adjacent[OF this]
  show "resid (renumber atoms ! Suc i) \<noteq> resid (renumber atoms ! i)
              \<longleftrightarrow> resid (atoms ! Suc i) \<noteq> resid (atoms ! i)"
    by (cases "resid (atoms ! Suc i) = resid (atoms ! i)") auto
qed

theorem renumber_spec_witness:
  "length (renumber [example_atom 7 ''SOL'' 1, example_atom 7 ''SOL'' 2,
                     example_atom 4 ''SOL'' 3]) = 3
   \<and> map resid (renumber [example_atom 7 ''SOL'' 1, example_atom 7 ''SOL'' 2,
                     example_atom 4 ''SOL'' 3]) = [1, 1, 2]
   \<and> map atomid (renumber [example_atom 7 ''SOL'' 1, example_atom 7 ''SOL'' 2,
                     example_atom 4 ''SOL'' 3]) = [1, 2, 3]
   \<and> resid (renumber [example_atom 7 ''SOL'' 1, example_atom 7 ''SOL'' 2,
                     example_atom 4 ''SOL'' 3] ! 2)
     \<noteq> resid (renumber [example_atom 7 ''SOL'' 1, example_atom 7 ''SOL'' 2,
                     example_atom 4 ''SOL'' 3] ! 1)"
  using renumber_spec[of "[example_atom 7 ''SOL'' 1, example_atom 7 ''SOL'' 2,
                     example_atom 4 ''SOL'' 3]"]
  by (simp add: renumber_def example_atom_def)

lemma count_changes_zeros:
  "\<forall>r\<in>set rs. r = 0 \<Longrightarrow> count_changes 0 rs = 0"
  by (induction rs) simp_all

text \<open>
  Claim C10. When the first atom of a non-empty sequence has original \<open>resid\<close> 0, the
  counter is not incremented for it: the first atom, and every atom of the leading run of
  atoms with \<open>resid\<close> 0, comes out with \<open>resid\<close> 0. (With any other first \<open>resid\<close>
  the numbering starts at 1, see \<open>renumber_first_nonzero\<close>.)
\<close>

theorem renumber_leading_zero_run:
  assumes "atoms \<noteq> []" and "resid (hd atoms) = 0"
  shows "resid (hd (renumber atoms)) = 0
         \<and> (\<forall>i < length (takeWhile (\<lambda>a. resid a = 0) atoms). resid (renumber atoms ! i) = 0)"
proof -
  let ?run = "takeWhile (\<lambda>a. resid a = 0) atoms"
  have run: "resid (renumber atoms ! i) = 0" if "i < length ?run" for i
  proof -
    have le: "length ?run \<le> length atoms" by (rule length_takeWhile_le)
    have "Suc i \<le> length ?run" using that by simp
    then have "take (Suc i) (?run @ dropWhile (\<lambda>a. resid a = 0) atoms) = take (Suc i) ?run"
      by (simp only: take_append diff_is_0_eq' take_0 append_Nil2)
    then have "take (Suc i) atoms = take (Suc i) ?run"
      by (simp only: takeWhile_dropWhile_id)
    then have "set (take (Suc i) atoms) \<subseteq> set ?run"
      by (metis set_take_subset)
    then have "\<forall>r\<in>set (map resid (take (Suc i) atoms)). r = 0"
      by (auto dest: set_takeWhileD)
    then have "count_changes 0 (map resid (take (Suc i) atoms)) = 0"
      by (rule count_changes_zeros)
    moreover have "i < length atoms" using that le by simp
    ultimately show ?thesis by (simp add: renumber_nth)
  qed
  have "0 < length ?run"
    using assms by (cases atoms) simp_all
  from run[OF this] have "resid (renumber atoms ! 0) = 0" .
  moreover have "renumber atoms \<noteq> []"
    using assms(1) by (cases atoms) (simp_all add: renumber_def Let_def)
  ultimately have "resid (hd (renumber atoms)) = 0"
    by (simp add: hd_conv_nth)
  with run show ?thesis by blast
qed

theorem renumber_leading_zero_run_witness:
  "map resid (renumber [example_atom 0 ''SOL'' 1, example_atom 0 ''SOL'' 2,
                        example_atom 4 ''SOL'' 3]) = [0, 0, 1]
   \<and> resid (hd (renumber [example_atom 0 ''SOL'' 1, example_atom 0 ''SOL'' 2,
                        example_atom 4 ''SOL'' 3])) = 0"
  using renumber_leading_zero_run[of "[example_atom 0 ''SOL'' 1, example_atom 0 ''SOL'' 2,
                        example_atom 4 ''SOL'' 3]"]
  by (simp add: renumber_def example_atom_def)

lemma renumber_first_nonzero:
  assumes "atoms \<noteq> []" and "resid (hd atoms) \<noteq> 0"
  shows "resid (hd (renumber atoms)) = 1"
  using assms by (cases atoms) (simp_all add: renumber_def Let_def)

section \<open>Properties of alter\_atoms, select and replace\_atom\<close>

lemma length_alter_atoms:
  "alter_atoms atoms indices rn an = Inr altered \<Longrightarrow> length altered = length atoms"
  by (induction indices arbitrary: atoms) (auto split: if_splits)

lemma alter_atoms_in_range:
  assumes "\<forall>i\<in>set indices. i < length atoms"
  shows "alter_atoms atoms indices rn an =
           Inr (map (\<lambda>j. if j \<in> set indices
                           then (atoms ! j)\<lparr>resname := rn, atom_name := an\<rparr>
                           else atoms ! j) [0..<length atoms])"
  using assms
proof (induction indices arbitrary: atoms)
  case Nil
  then show ?case by (simp add: map_nth)
next
  case (Cons i indices)
  let ?upd = "\<lambda>a::'a atom. a\<lparr>resname := rn, atom_name := an\<rparr>"
  let ?atoms = "atoms[i := ?upd (atoms ! i)]"
  have i: "i < length atoms" using Cons.prems by simp
  have "\<forall>k\<in>set indices. k < length ?atoms" using Cons.prems by simp
  from Cons.IH[OF this]
  have "alter_atoms ?atoms indices rn an =
          Inr (map (\<lambda>j. if j \<in> set indices then ?upd (?atoms ! j) else ?atoms ! j)
                 [0..<length atoms])"
    by simp
  moreover have "map (\<lambda>j. if j \<in> set indices then ?upd (?atoms ! j) else ?atoms ! j)
                   [0..<length atoms]
               = map (\<lambda>j. if j \<in> set (i # indices) then ?upd (atoms ! j) else atoms ! j)
                   [0..<length atoms]"
  proof (rule map_cong[OF refl])
    fix j assume "j \<in> set [0..<length atoms]"
    then show "(if j \<in> set indices then ?upd (?atoms ! j) else ?atoms ! j)
             = (if j \<in> set (i # indices) then ?upd (atoms ! j) else atoms ! j)"
      by (cases "j = i") (simp_all add: i)
  qed
  ultimately show ?case using i by simp
qed

text \<open>
  Claim C8. For indices of the atom list, \<open>alter_atoms\<close> returns a list of the same
  length in which \<open>resid\<close>, \<open>atomid\<close> and the coordinates of every atom are those of
  the input, an atom at one of the indices differs from the input atom only in \<open>resname\<close>
  and \<open>atom_name\<close>, which are the new names, and every other atom is the input atom.
\<close>

theorem alter_atoms_frame:
  assumes "\<forall>i\<in>set indices. i < length atoms"
  shows "\<exists>altered. alter_atoms atoms indices rn an = Inr altered
           \<and> length altered = length atoms
           \<and> (\<forall>j<length atoms.
                 resid (altered ! j) = resid (atoms ! j)
               \<and> atomid (altered ! j) = atomid (atoms ! j)
               \<and> coord_x (altered ! j) = coord_x (atoms ! j)
               \<and> coord_y (altered ! j) = coord_y (atoms ! j)
               \<and> coord_z (altered ! j) = coord_z (atoms ! j)
               \<and> (j \<in> set indices \<longrightarrow>
                    altered ! j = (atoms ! j)\<lparr>resname := rn, atom_name := an\<rparr>)
               \<and> (j \<notin> set indices \<longrightarrow> altered ! j = atoms ! j))"
  unfolding alter_atoms_in_range[OF assms] by simp

theorem alter_atoms_frame_witness:
  "alter_atoms [example_atom 1 ''SOL'' 1, example_atom 1 ''SOL'' 2, example_atom 2 ''SOL'' 3]
     [2, 0] ''ION'' ''NA''
   = Inr [(example_atom 1 ''SOL'' 1)\<lparr>resname := ''ION'', atom_name := ''NA''\<rparr>,
          example_atom 1 ''SOL'' 2,
          (example_atom 2 ''SOL'' 3)\<lparr>resname := ''ION'', atom_name := ''NA''\<rparr>]
   \<and> (\<exists>altered.
         alter_atoms [example_atom 1 ''SOL'' 1, example_atom 1 ''SOL'' 2,
                      example_atom 2 ''SOL'' 3] [2, 0] ''ION'' ''NA'' = Inr altered
         \<and> length altered = 3 \<and> altered ! 1 = example_atom 1 ''SOL'' 2
         \<and> resid (altered ! 2) = 2)"
  using alter_atoms_frame[of "[2, 0]"
          "[example_atom 1 ''SOL'' 1, example_atom 1 ''SOL'' 2, example_atom 2 ''SOL'' 3]"
          "''ION''" "''NA''"]
  by (simp add: example_atom_def)

lemma enumerate_nth: "enumerate 0 xs = map (\<lambda>i. (i, xs ! i)) [0..<length xs]"
  by (rule nth_equalityI) (simp_all add: nth_enumerate_eq)

lemma select_filter:
  "select atoms key val = filter (\<lambda>i. key (atoms ! i) = val) [0..<length atoms]"
  unfolding select_def enumerate_nth
  by (simp add: filter_map comp_def case_prod_beta)



lemma select_empty:
  "(\<forall>a\<in>set atoms. key a \<noteq> val) \<Longrightarrow> select atoms key val = []"
  by (simp add: select_filter filter_empty_conv)






text \<open>
  Claim C9. When no atom matches the selection, \<open>replace_atom\<close> returns an error and
  never an atom list, whatever the count asked for. With the count 0 the sample succeeds
  (it is empty) and the error is the \<open>ValueError\<close> of \<open>min\<close> on the empty candidate
  list; with any other count the sample itself raises \<open>ValueError\<close>.
\<close>

theorem replace_atom_no_candidates:
  assumes "\<forall>a\<in>set atoms. key a \<noteq> val"
  shows "(\<exists>e. replace_atom picks atoms key val rn an nsub = Inl e)
       \<and> replace_atom [] atoms key val rn an 0 = Inl (ValueError MinEmptySequence)
       \<and> (nsub \<noteq> 0 \<longrightarrow>
            replace_atom picks atoms key val rn an nsub
              = Inl (ValueError SampleLargerThanPopulation))"
proof -
  have c: "select atoms key val = []"
    using assms by (rule select_empty)
  have a: "\<exists>e. replace_atom picks atoms key val rn an nsub = Inl e"
    unfolding replace_atom_def Let_def c
    by (simp add: py_min_def split: sum.splits)
  have b: "replace_atom [] atoms key val rn an 0 = Inl (ValueError MinEmptySequence)"
    unfolding replace_atom_def Let_def c
    by (simp add: py_min_def sample_def)
  have d: "replace_atom picks atoms key val rn an nsub
              = Inl (ValueError SampleLargerThanPopulation)" if "nsub \<noteq> 0"
    unfolding replace_atom_def Let_def c using that
    by (auto simp: sample_def)
  from a b d show ?thesis by blast
qed

theorem replace_atom_no_candidates_witness:
  "replace_atom [] [example_atom 1 ''SOL'' 1, example_atom 1 ''SOL'' 2] resname ''ION''
     ''K'' ''K'' 0 = Inl (ValueError MinEmptySequence)
   \<and> replace_atom [0] [example_atom 1 ''SOL'' 1, example_atom 1 ''SOL'' 2] resname ''ION''
     ''K'' ''K'' 1 = Inl (ValueError SampleLargerThanPopulation)"
  using replace_atom_no_candidates[of "[example_atom 1 ''SOL'' 1, example_atom 1 ''SOL'' 2]"
          resname "''ION''" "[0]" "''K''" "''K''" 1]
  by (simp add: example_atom_def)







section \<open>Properties of read\_gro\<close>

lemma strip_empty_iff: "strip s = [] \<longleftrightarrow> (\<forall>c\<in>set s. isspace c)"
proof
  assume "strip s = []"
  then have "dropWhile isspace (rev (dropWhile isspace s)) = []"
    by (simp add: strip_def)
  then have all: "\<forall>c\<in>set (dropWhile isspace s). isspace c"
    by (simp add: dropWhile_eq_Nil_conv)
  have "dropWhile isspace s = []"
  proof (rule ccontr)
    assume ne: "dropWhile isspace s \<noteq> []"
    then have "\<not> isspace (hd (dropWhile isspace s))"
      by (rule hd_dropWhile)
    moreover have "hd (dropWhile isspace s) \<in> set (dropWhile isspace s)"
      using ne by simp
    ultimately show False using all by blast
  qed
  then show "\<forall>c\<in>set s. isspace c"
    by (simp add: dropWhile_eq_Nil_conv)
next
  assume "\<forall>c\<in>set s. isspace c"
  then have "dropWhile isspace s = []"
    by (metis dropWhile_eq_Nil_conv)
  then show "strip s = []"
    by (simp only: strip_def rev.simps dropWhile.simps)
qed

lemma py_int_Some_nonblank: "py_int s = Some i \<Longrightarrow> strip s \<noteq> []"
  by (auto simp: py_int_def Let_def strip_empty_iff split: if_splits)

lemma set_slice: "set (slice lo hi s) \<subseteq> set s"
  unfolding slice_def by (meson set_take_subset set_drop_subset subset_trans)

lemma decode_nonblank:
  assumes "decode to_float line = Inr a"
  shows "strip line \<noteq> []"
proof -
  from assms obtain r where "py_int (strip (slice 0 5 line)) = Some r"
    by (auto simp: decode_def split: option.splits)
  then have "strip (strip (slice 0 5 line)) \<noteq> []"
    by (rule py_int_Some_nonblank)
  moreover have "strip [] = []"
    by (simp add: strip_def)
  ultimately have "strip (slice 0 5 line) \<noteq> []"
    by metis
  then obtain c where "c \<in> set (slice 0 5 line)" "\<not> isspace c"
    by (auto simp: strip_empty_iff)
  then have "c \<in> set line" "\<not> isspace c"
    using set_slice by auto
  then show ?thesis
    by (auto simp: strip_empty_iff)
qed

lemma decode_error: "decode to_float line = Inl e \<Longrightarrow> e = FormatError"
  by (auto simp: decode_def split: option.splits)

lemma stop_at_empty_line_append:
  assumes "\<forall>l\<in>set ls. strip l \<noteq> []" and "trailer = [] \<or> strip (hd trailer) = []"
  shows "stop_at_empty_line (ls @ trailer) = ls"
  using assms
proof (induction ls)
  case Nil
  then show ?case by (cases trailer) auto
next
  case (Cons l ls)
  then show ?case by simp
qed

lemma read_atoms_decodable:
  assumes "\<forall>l\<in>set (butlast (prev_line # ls)). \<exists>a. decode to_float l = Inr a"
  shows "\<exists>atoms. read_atoms to_float acc prev_line ls = Inr (acc @ atoms, last (prev_line # ls))
           \<and> map Inr atoms = map (decode to_float) (butlast (prev_line # ls))"
  using assms
proof (induction ls arbitrary: prev_line acc)
  case Nil
  then show ?case by simp
next
  case (Cons l ls)
  from Cons.prems obtain a where a: "decode to_float prev_line = Inr a"
    by auto
  have "\<forall>l'\<in>set (butlast (l # ls)). \<exists>a. decode to_float l' = Inr a"
    using Cons.prems by simp
  from Cons.IH[OF this, of "acc @ [a]"] obtain atoms where
    r: "read_atoms to_float (acc @ [a]) l ls = Inr ((acc @ [a]) @ atoms, last (l # ls))"
    and m: "map Inr atoms = map (decode to_float) (butlast (l # ls))"
    by blast
  have "read_atoms to_float acc prev_line (l # ls)
          = Inr (acc @ (a # atoms), last (prev_line # l # ls))"
    using a r by simp
  moreover have "map Inr (a # atoms) = map (decode to_float) (butlast (prev_line # l # ls))"
    using a m by simp
  ultimately show ?case by blast
qed

lemma read_atoms_error: "read_atoms to_float acc prev_line ls = Inl e \<Longrightarrow> e = FormatError"
  by (induction ls arbitrary: prev_line acc) (auto split: sum.splits dest: decode_error)

text \<open>
  Claim C4. The input is a title line, an atom-count line, \<open>N\<close> atom lines that decode,
  and a footer line that is not blank, followed by nothing or by a blank line and any
  further lines. Then \<open>read_gro\<close> returns the title as it is, the decoded atom lines in
  order (exactly \<open>N\<close> atoms) and the footer as it is; the atom-count line may be any text
  and the lines after the blank line do not matter.
\<close>

theorem read_gro_well_formed:
  assumes "\<forall>l\<in>set atom_lines. \<exists>a. decode to_float l = Inr a"
    and "strip footer \<noteq> []"
    and "trailer = [] \<or> strip (hd trailer) = []"
  shows "\<exists>atoms. read_gro to_float (title # natoms_line # atom_lines @ footer # trailer)
                   = Inr (title, atoms, footer)
           \<and> map Inr atoms = map (decode to_float) atom_lines"
proof -
  let ?all = "atom_lines @ [footer]"
  obtain prev_line ls where all: "?all = prev_line # ls"
    by (cases ?all) auto
  have nb: "\<forall>l\<in>set ?all. strip l \<noteq> []"
    using assms(1,2) decode_nonblank by auto
  then have "\<forall>l\<in>set ls. strip l \<noteq> []"
    unfolding all by simp
  then have stop: "stop_at_empty_line (ls @ trailer) = ls"
    using assms(3) by (rule stop_at_empty_line_append)
  have bl: "butlast (prev_line # ls) = atom_lines" and la: "last (prev_line # ls) = footer"
    unfolding all[symmetric] by simp_all
  from read_atoms_decodable[of prev_line ls to_float "[]"] assms(1)
  obtain atoms where r: "read_atoms to_float [] prev_line ls = Inr (atoms, footer)"
    and m: "map Inr atoms = map (decode to_float) atom_lines"
    unfolding bl la by auto
  have eq: "atom_lines @ footer # trailer = prev_line # ls @ trailer"
    using all by (metis append_Cons append_Nil append_assoc)
  have "read_gro to_float (title # natoms_line # atom_lines @ footer # trailer)
           = Inr (title, atoms, footer)"
    by (simp add: read_gro_def eq stop r)
  with m show ?thesis by blast
qed

lemma read_gro_error_kinds:
  assumes "read_gro to_float lines = Inl e"
  shows "(e = StopIteration \<and> length lines < 3) \<or> (e = FormatError \<and> 3 \<le> length lines)"
proof (cases "length lines < 3")
  case True
  then consider "lines = []" | t where "lines = [t]" | t n where "lines = [t, n]"
    by (cases lines rule: list.exhaust[case_names Nil Cons];
        cases "tl lines"; cases "tl (tl lines)") auto
  then show ?thesis
    using assms by cases (auto simp: read_gro_def)
next
  case False
  then obtain t n p rest where "lines = t # n # p # rest"
    by (cases lines; cases "tl lines"; cases "tl (tl lines)") auto
  then show ?thesis
    using assms by (auto simp: read_gro_def split: sum.splits dest: read_atoms_error)
qed

text \<open>
  Claim C5 (the reader raises \<open>FormatError\<close>, and no other error, on every malformed
  input, also on one of fewer than three lines). On no line, on one line and on two lines
  \<open>read_gro\<close> raises \<open>StopIteration\<close>: the calls of \<open>next\<close> stand outside the
  \<open>try\<close> block, and the \<open>except\<close> clause converts \<open>ValueError\<close> only. An atom line
  that does not decode does give \<open>FormatError\<close>, and these are the only two errors of the
  reader (\<open>read_gro_error_kinds\<close>).
\<close>

theorem read_gro_short_input:
  "read_gro to_float [] = Inl StopIteration
   \<and> read_gro to_float [title] = Inl StopIteration
   \<and> read_gro to_float [title, natoms_line] = Inl StopIteration"
  by (simp add: read_gro_def)

lemma example_decode:
  "map (decode example_to_float) example_lines =
     [Inr \<lparr>resid = 1, resname = ''SOL'', atom_name = ''OW'', atomid = 1,
           coord_x = ''0.126'', coord_y = ''1.624'', coord_z = ''1.679''\<rparr>,
      Inr \<lparr>resid = 1, resname = ''SOL'', atom_name = ''HW1'', atomid = 2,
           coord_x = ''0.190'', coord_y = ''1.661'', coord_z = ''1.747''\<rparr>]"
  by code_simp

lemma example_footer_nonblank: "strip example_footer \<noteq> []"
  by code_simp

theorem read_gro_well_formed_witness:
  "read_gro example_to_float
     (''Water'' # ''not a number'' # example_lines
      @ example_footer # [[CHR 0x0A], ''ignored''])
   = Inr (''Water'',
          [\<lparr>resid = 1, resname = ''SOL'', atom_name = ''OW'', atomid = 1,
            coord_x = ''0.126'', coord_y = ''1.624'', coord_z = ''1.679''\<rparr>,
           \<lparr>resid = 1, resname = ''SOL'', atom_name = ''HW1'', atomid = 2,
            coord_x = ''0.190'', coord_y = ''1.661'', coord_z = ''1.747''\<rparr>],
          example_footer)"
proof -
  have d: "\<forall>l\<in>set example_lines. \<exists>a. decode example_to_float l = Inr a"
    using example_decode by (auto simp: example_lines_def)
  have b: "[[CHR 0x0A], ''ignored''] = [] \<or> strip (hd [[CHR 0x0A], ''ignored'']) = []"
    by (simp add: strip_def isspace_def)
  from read_gro_well_formed[OF d example_footer_nonblank b, of "''Water''" "''not a number''"]
  obtain atoms where
    r: "read_gro example_to_float
          (''Water'' # ''not a number'' # example_lines
           @ example_footer # [[CHR 0x0A], ''ignored''])
        = Inr (''Water'', atoms, example_footer)"
    and m: "map Inr atoms = map (decode example_to_float) example_lines"
    by blast
  from m have "atoms =
          [\<lparr>resid = 1, resname = ''SOL'', atom_name = ''OW'', atomid = 1,
            coord_x = ''0.126'', coord_y = ''1.624'', coord_z = ''1.679''\<rparr>,
           \<lparr>resid = 1, resname = ''SOL'', atom_name = ''HW1'', atomid = 2,
            coord_x = ''0.190'', coord_y = ''1.661'', coord_z = ''1.747''\<rparr>]"
    unfolding example_decode by (auto simp: map_eq_Cons_conv)
  with r show ?thesis by simp
qed

section \<open>The scenario of three atoms\<close>

lemma valid_draw_single:
  assumes "valid_draw picks n 1"
  obtains j where "picks = [j]" and "j < n"
proof -
  from assms have "length picks = 1" and r: "\<forall>j\<in>set picks. j < n"
    by (simp_all add: valid_draw_def)
  then obtain j where "picks = [j]"
    by (cases picks) auto
  with r that show thesis by simp
qed

lemma str_nat_3: "str_nat 3 = ''3''"
  by code_simp

lemma replace_first_of_three:
  assumes "resname a0 = ''SOL''" "resname a1 = ''SOL''" "resname a2 = ''SOL''"
    and "resid a0 = 1" "resid a1 = 1" "resid a2 = 1" and "j < 3"
  shows "replace_atom [j] [a0, a1, a2] resname ''SOL'' ''ION'' ''NA'' 1 =
           Inr (if j = 0 then
                  [a0\<lparr>resid := 1, resname := ''ION'', atom_name := ''NA'', atomid := 1\<rparr>,
                   a1\<lparr>resid := 1, atomid := 2\<rparr>, a2\<lparr>resid := 1, atomid := 3\<rparr>]
                else if j = 1 then
                  [a1\<lparr>resid := 1, resname := ''ION'', atom_name := ''NA'', atomid := 1\<rparr>,
                   a0\<lparr>resid := 1, atomid := 2\<rparr>, a2\<lparr>resid := 1, atomid := 3\<rparr>]
                else
                  [a2\<lparr>resid := 1, resname := ''ION'', atom_name := ''NA'', atomid := 1\<rparr>,
                   a0\<lparr>resid := 1, atomid := 2\<rparr>, a1\<lparr>resid := 1, atomid := 3\<rparr>])"
proof -
  have c: "select [a0, a1, a2] resname ''SOL'' = [0, 1, 2]"
    using assms(1-3) by (simp add: select_def enumerate_simps)
  from assms(7) consider "j = 0" | "j = 1" | "j = 2" by linarith
  then show ?thesis
  proof cases
    case 1
    then show ?thesis
      unfolding replace_atom_def c Let_def
      using assms(4-6)
      by (simp add: sample_def py_min_def reorder_def renumber_def upt_rec)
  next
    case 2
    then show ?thesis
      unfolding replace_atom_def c Let_def
      using assms(4-6)
      by (simp add: sample_def py_min_def reorder_def renumber_def upt_rec)
  next
    case 3
    then show ?thesis
      unfolding replace_atom_def c Let_def
      using assms(4-6)
      by (simp add: sample_def py_min_def reorder_def renumber_def upt_rec)
  qed
qed

text \<open>
  Claim C3. Three atoms, all with \<open>resname\<close> SOL and \<open>resid\<close> 1, with \<open>atomid\<close>
  1, 2, 3; one substitution of SOL by \<open>resname\<close> ION and \<open>atom_name\<close> NA. For every
  draw of the sampler \<open>replace_atom\<close> returns three atoms, exactly one of them with
  \<open>resname\<close> ION and \<open>atom_name\<close> NA, all with \<open>resid\<close> 1, with \<open>atomid\<close> 1, 2, 3
  in the new order; and when these atoms were read with a title and a footer, the run
  prints the title first, then the count 3 and the three atom lines, and the footer last.
\<close>

theorem replace_one_of_three:
  fixes atoms :: "'f atom list"
  assumes "length atoms = 3"
    and "\<forall>a\<in>set atoms. resname a = ''SOL'' \<and> resid a = 1"
    and "map atomid atoms = [1, 2, 3]"
    and "valid_draw picks 3 1"
  shows "\<exists>out. replace_atom picks atoms resname ''SOL'' ''ION'' ''NA'' 1 = Inr out
           \<and> length out = 3
           \<and> length (filter (\<lambda>a. resname a = ''ION'' \<and> atom_name a = ''NA'') out) = 1
           \<and> (\<forall>a\<in>set out. resid a = 1)
           \<and> map atomid out = [1, 2, 3]
           \<and> (\<forall>to_float fmt_float stdin title box.
                 read_gro to_float stdin = Inr (title, atoms, box) \<longrightarrow>
                 cli_main to_float fmt_float picks
                   \<lparr>natoms = 1, oresname = ''SOL'', nresname = ''ION'', natname = ''NA''\<rparr> stdin
                 = Inr (title # (''3'' @ [CHR 0x0A]) # map (encode fmt_float) out @ [box]))"
proof -
  from assms(1) obtain a0 a1 a2 where atoms: "atoms = [a0, a1, a2]"
    by (auto simp: length_Suc_conv eval_nat_numeral)
  from assms(4) obtain j where picks: "picks = [j]" and j: "j < 3"
    by (rule valid_draw_single)
  have n: "resname a0 = ''SOL''" "resname a1 = ''SOL''" "resname a2 = ''SOL''"
    and r: "resid a0 = 1" "resid a1 = 1" "resid a2 = 1"
    using assms(2) by (simp_all add: atoms)
  note run = replace_first_of_three[OF n r j]
  let ?out = "if j = 0 then
                  [a0\<lparr>resid := 1, resname := ''ION'', atom_name := ''NA'', atomid := 1\<rparr>,
                   a1\<lparr>resid := 1, atomid := 2\<rparr>, a2\<lparr>resid := 1, atomid := 3\<rparr>]
                else if j = 1 then
                  [a1\<lparr>resid := 1, resname := ''ION'', atom_name := ''NA'', atomid := 1\<rparr>,
                   a0\<lparr>resid := 1, atomid := 2\<rparr>, a2\<lparr>resid := 1, atomid := 3\<rparr>]
                else
                  [a2\<lparr>resid := 1, resname := ''ION'', atom_name := ''NA'', atomid := 1\<rparr>,
                   a0\<lparr>resid := 1, atomid := 2\<rparr>, a1\<lparr>resid := 1, atomid := 3\<rparr>]"
  have 1: "replace_atom picks atoms resname ''SOL'' ''ION'' ''NA'' 1 = Inr ?out"
    unfolding picks atoms by (rule run)
  have 2: "length ?out = 3" by simp
  have 3: "length (filter (\<lambda>a. resname a = ''ION'' \<and> atom_name a = ''NA'') ?out) = 1"
    using n by simp
  have 4: "\<forall>a\<in>set ?out. resid a = 1" by simp
  have 5: "map atomid ?out = [1, 2, 3]" by simp
  have 6: "cli_main to_float fmt_float picks
             \<lparr>natoms = 1, oresname = ''SOL'', nresname = ''ION'', natname = ''NA''\<rparr> stdin
           = Inr (title # (''3'' @ [CHR 0x0A]) # map (encode fmt_float) ?out @ [box])"
    if "read_gro to_float stdin = Inr (title, atoms, box)"
    for to_float :: "string \<Rightarrow> 'f option" and fmt_float stdin title box
    using that 1 2 by (simp add: cli_main_def write_gro_def str_nat_3 del: str_nat.simps)
  have 7: "\<forall>to_float fmt_float stdin title box.
             read_gro to_float stdin = Inr (title, atoms, box) \<longrightarrow>
             cli_main to_float fmt_float picks
               \<lparr>natoms = 1, oresname = ''SOL'', nresname = ''ION'', natname = ''NA''\<rparr> stdin
             = Inr (title # (''3'' @ [CHR 0x0A]) # map (encode fmt_float) ?out @ [box])"
    using 6 by (intro allI impI)
  show ?thesis
    by (rule exI[of _ ?out]) (intro conjI 1 2 3 4 5 7)
qed

theorem replace_one_of_three_witness:
  "length scenario_atoms = 3
   \<and> list_all (\<lambda>a. resname a = ''SOL'' \<and> resid a = 1) scenario_atoms
   \<and> map atomid scenario_atoms = [1, 2, 3]
   \<and> valid_draw [1] 3 1
   \<and> (\<exists>out. replace_atom [1] scenario_atoms resname ''SOL'' ''ION'' ''NA'' 1 = Inr out
          \<and> length out = 3
          \<and> length (filter (\<lambda>a. resname a = ''ION'' \<and> atom_name a = ''NA'') out) = 1
          \<and> list_all (\<lambda>a. resid a = 1) out
          \<and> map atomid out = [1, 2, 3])"
proof -
  have h: "length scenario_atoms = 3"
    "\<forall>a\<in>set scenario_atoms. resname a = ''SOL'' \<and> resid a = 1"
    "map atomid scenario_atoms = [1, 2, 3]"
    "valid_draw [1] 3 1"
    by (simp_all add: scenario_atoms_def example_atom_def valid_draw_def)
  from replace_one_of_three[OF h] obtain out where
    "replace_atom [1] scenario_atoms resname ''SOL'' ''ION'' ''NA'' 1 = Inr out"
    "length out = 3"
    "length (filter (\<lambda>a. resname a = ''ION'' \<and> atom_name a = ''NA'') out) = 1"
    "\<forall>a\<in>set out. resid a = 1"
    "map atomid out = [1, 2, 3]"
    by (elim exE conjE) (rule that)
  with h show ?thesis
    by (auto simp: list_all_iff)
qed

section \<open>The record codec\<close>

text \<open>
  The columns that \<open>encode\<close> writes are the columns that \<open>decode\<close> reads: the decimal
  text of an integer of at most five characters is read back as that integer, and a name of
  at most five characters without white space at its ends is read back as it is. The
  coordinate columns go through the two float conversions, which are parameters here.
\<close>

lemma digit_char:
  assumes "d < 10"
  shows "isdigit (char_of (48 + d))" and "digit_value (char_of (48 + d)) = d"
    and "\<not> isspace (char_of (48 + d))" and "char_of (48 + d) \<noteq> CHR ''-''"
    and "char_of (48 + d) \<noteq> CHR ''+''"
proof -
  from assms consider "d = 0" | "d = 1" | "d = 2" | "d = 3" | "d = 4" | "d = 5"
    | "d = 6" | "d = 7" | "d = 8" | "d = 9" by atomize_elim arith
  then have "isdigit (char_of (48 + d)) \<and> digit_value (char_of (48 + d)) = d
      \<and> \<not> isspace (char_of (48 + d)) \<and> char_of (48 + d) \<noteq> CHR ''-''
      \<and> char_of (48 + d) \<noteq> CHR ''+''"
    by cases (hypsubst, code_simp)+
  then show "isdigit (char_of (48 + d))" and "digit_value (char_of (48 + d)) = d"
    and "\<not> isspace (char_of (48 + d))" and "char_of (48 + d) \<noteq> CHR ''-''"
    and "char_of (48 + d) \<noteq> CHR ''+''"
    by simp_all
qed

lemma str_nat_chars:
  "str_nat n \<noteq> [] \<and> (\<forall>c\<in>set (str_nat n).
      isdigit c \<and> \<not> isspace c \<and> c \<noteq> CHR ''-'' \<and> c \<noteq> CHR ''+'')"
proof (induction n rule: str_nat.induct)
  case (1 n)
  show ?case
  proof (cases "n < 10")
    case True
    then show ?thesis
      by (subst (1 2) str_nat.simps) (simp add: digit_char del: str_nat.simps)
  next
    case False
    have "n mod 10 < 10" by simp
    note d = digit_char[OF this]
    from False "1.IH" d show ?thesis
      by (subst (1 2) str_nat.simps) (simp del: str_nat.simps)
  qed
qed

lemma str_nat_value:
  "foldl (\<lambda>m c. 10 * m + digit_value c) 0 (str_nat n) = n"
proof (induction n rule: str_nat.induct)
  case (1 n)
  show ?case
  proof (cases "n < 10")
    case True
    then show ?thesis
      by (subst str_nat.simps) (simp add: digit_char del: str_nat.simps)
  next
    case False
    have "n mod 10 < 10" by simp
    note d = digit_char(2)[OF this]
    from False "1.IH" d show ?thesis
      by (subst str_nat.simps) (simp del: str_nat.simps)
  qed
qed

lemma length_str_nat:
  "0 < k \<Longrightarrow> n < 10 ^ k \<Longrightarrow> length (str_nat n) \<le> k"
proof (induction n arbitrary: k rule: str_nat.induct)
  case (1 n)
  show ?case
  proof (cases "n < 10")
    case True
    then show ?thesis
      using "1.prems"(1) by (subst str_nat.simps) (simp del: str_nat.simps)
  next
    case False
    then have k: "1 < k"
      using "1.prems" by (cases "k = 1") auto
    then obtain k' where k': "k = Suc k'" "0 < k'"
      by (cases k) auto
    have "n div 10 < 10 ^ k'"
      using "1.prems"(2) k' by (simp add: less_mult_imp_div_less mult.commute)
    from "1.IH"[OF False k'(2) this] False k' show ?thesis
      by (subst str_nat.simps) (simp del: str_nat.simps)
  qed
qed

lemma str_int_props:
  "str_int i \<noteq> []" "\<forall>c\<in>set (str_int i). \<not> isspace c" "py_int (str_int i) = Some i"
proof -
  note c = str_nat_chars
  have nd: "\<not> isspace CHR ''-''" by (simp add: isspace_def)
  show ne: "str_int i \<noteq> []"
    using c by (simp add: str_int_def)
  show sp: "\<forall>c\<in>set (str_int i). \<not> isspace c"
    using c nd by (auto simp: str_int_def)
  have st: "strip (str_int i) = str_int i"
  proof -
    have "\<not> isspace (hd (str_int i))" "\<not> isspace (last (str_int i))"
      using ne sp by simp_all
    then have "dropWhile isspace (str_int i) = str_int i"
      "dropWhile isspace (rev (str_int i)) = rev (str_int i)"
      using ne by (simp_all add: dropWhile_eq_self_iff hd_rev)
    then show ?thesis by (simp add: strip_def)
  qed
  show "py_int (str_int i) = Some i"
  proof (cases "i < 0")
    case True
    then have s: "str_int i = CHR ''-'' # str_nat (nat (- i))"
      by (simp add: str_int_def)
    show ?thesis
      unfolding py_int_def st Let_def
      using True c[of "nat (- i)"]
      by (simp add: s str_nat_value list_all_iff del: str_nat.simps)
  next
    case False
    then have s: "str_int i = str_nat (nat i)"
      by (simp add: str_int_def)
    have "hd (str_nat (nat i)) \<in> set (str_nat (nat i))"
      using c by simp
    then have h: "hd (str_nat (nat i)) \<noteq> CHR ''-''" "hd (str_nat (nat i)) \<noteq> CHR ''+''"
      using c by blast+
    show ?thesis
      unfolding py_int_def st Let_def
      using False c[of "nat i"] h
      by (simp add: s str_nat_value list_all_iff del: str_nat.simps)
  qed
qed

lemma length_str_int:
  assumes "- 9999 \<le> i" and "i \<le> 99999"
  shows "length (str_int i) \<le> 5"
proof (cases "i < 0")
  case True
  then have "nat (- i) < 10 ^ 4" using assms by simp
  then have "length (str_nat (nat (- i))) \<le> 4"
    by (intro length_str_nat) simp_all
  with True show ?thesis by (simp add: str_int_def del: str_nat.simps)
next
  case False
  then have "nat i < 10 ^ 5" using assms by simp
  then have "length (str_nat (nat i)) \<le> 5"
    by (intro length_str_nat) simp_all
  with False show ?thesis by (simp add: str_int_def del: str_nat.simps)
qed

lemma slice_fields:
  assumes "length f1 = 5" "length f2 = 5" "length f3 = 5" "length f4 = 5"
    and "length f5 = 8" "length f6 = 8" "length f7 = 8"
  shows "slice 0 5 (f1 @ f2 @ f3 @ f4 @ f5 @ f6 @ f7 @ r) = f1"
    and "slice 5 10 (f1 @ f2 @ f3 @ f4 @ f5 @ f6 @ f7 @ r) = f2"
    and "slice 10 15 (f1 @ f2 @ f3 @ f4 @ f5 @ f6 @ f7 @ r) = f3"
    and "slice 15 20 (f1 @ f2 @ f3 @ f4 @ f5 @ f6 @ f7 @ r) = f4"
    and "slice 20 28 (f1 @ f2 @ f3 @ f4 @ f5 @ f6 @ f7 @ r) = f5"
    and "slice 28 36 (f1 @ f2 @ f3 @ f4 @ f5 @ f6 @ f7 @ r) = f6"
    and "slice 36 44 (f1 @ f2 @ f3 @ f4 @ f5 @ f6 @ f7 @ r) = f7"
  using assms by (simp_all add: slice_def)

lemma isspace_space: "isspace CHR '' ''"
  by (simp add: isspace_def)

lemma strip_rjust: "strip (rjust w s) = strip s"
proof -
  have "dropWhile isspace (replicate (w - length s) CHR '' '' @ s) = dropWhile isspace s"
    by (rule dropWhile_append2) (simp add: isspace_space)
  then show ?thesis by (simp only: strip_def rjust_def)
qed

lemma strip_ljust: "strip (ljust w s) = strip s"
proof (cases "\<forall>c\<in>set s. isspace c")
  case True
  then have "\<forall>c\<in>set (ljust w s). isspace c"
    by (auto simp: ljust_def isspace_space)
  with True show ?thesis by (simp only: strip_empty_iff[THEN iffD2])
next
  case False
  let ?sp = "replicate (w - length s) CHR '' ''"
  from False obtain c where c: "c \<in> set s" "\<not> isspace c" by blast
  then have "dropWhile isspace (s @ ?sp) = dropWhile isspace s @ ?sp"
    by (rule dropWhile_append1)
  then have "rev (dropWhile isspace (s @ ?sp)) = ?sp @ rev (dropWhile isspace s)"
    by simp
  moreover have "dropWhile isspace (?sp @ rev (dropWhile isspace s))
               = dropWhile isspace (rev (dropWhile isspace s))"
    by (rule dropWhile_append2) (simp add: isspace_space)
  ultimately show ?thesis by (simp only: strip_def ljust_def)
qed

lemma length_just:
  "length s \<le> w \<Longrightarrow> length (rjust w s) = w"
  "length s \<le> w \<Longrightarrow> length (ljust w s) = w"
  by (simp_all add: rjust_def ljust_def)

lemma strip_idem_nospace:
  assumes "s \<noteq> []" and "\<forall>c\<in>set s. \<not> isspace c"
  shows "strip s = s"
proof -
  have "\<not> isspace (hd s)" "\<not> isspace (last s)"
    using assms by simp_all
  then have "dropWhile isspace s = s" "dropWhile isspace (rev s) = rev s"
    using assms(1) by (simp_all add: dropWhile_eq_self_iff hd_rev)
  then show ?thesis by (simp add: strip_def)
qed

lemma py_int_field:
  "py_int (strip (rjust 5 (str_int i))) = Some i"
  using str_int_props[of i]
  by (simp add: strip_rjust strip_idem_nospace)

text \<open>
  Decoding an encoded atom gives the atom back, with each coordinate replaced by what the
  float conversion reads from its eight characters; encoding that record again gives the
  same line whenever the coordinate format prints the values read as it printed the
  original ones.
\<close>

lemma decode_encode:
  fixes a :: "'f atom"
  assumes "- 9999 \<le> resid a" "resid a \<le> 99999" "- 9999 \<le> atomid a" "atomid a \<le> 99999"
    and "length (resname a) \<le> 5" "strip (resname a) = resname a"
    and "length (atom_name a) \<le> 5" "strip (atom_name a) = atom_name a"
    and "length (fmt_float (coord_x a)) = 8" "to_float (strip (fmt_float (coord_x a))) = Some vx"
    and "length (fmt_float (coord_y a)) = 8" "to_float (strip (fmt_float (coord_y a))) = Some vy"
    and "length (fmt_float (coord_z a)) = 8" "to_float (strip (fmt_float (coord_z a))) = Some vz"
  shows "decode to_float (encode fmt_float a)
         = Inr (a\<lparr>coord_x := vx, coord_y := vy, coord_z := vz\<rparr>)"
proof -
  have l: "length (rjust 5 (str_int (resid a))) = 5" "length (ljust 5 (resname a)) = 5"
    "length (rjust 5 (atom_name a)) = 5" "length (rjust 5 (str_int (atomid a))) = 5"
    using assms(1-5,7) by (simp_all add: length_just length_str_int)
  note s = slice_fields[OF l assms(9,11,13)]
  have i: "py_int (strip (rjust 5 (str_int (resid a)))) = Some (resid a)"
    "py_int (strip (rjust 5 (str_int (atomid a)))) = Some (atomid a)"
    by (rule py_int_field)+
  have n: "strip (ljust 5 (resname a)) = resname a"
    "strip (rjust 5 (atom_name a)) = atom_name a"
    by (simp_all only: strip_ljust strip_rjust assms(6,8))
  show ?thesis
    unfolding decode_def encode_def s i n assms(10,12,14)
    by (cases a) simp
qed

lemma encode_decode_encode:
  fixes a :: "'f atom"
  assumes "- 9999 \<le> resid a" "resid a \<le> 99999" "- 9999 \<le> atomid a" "atomid a \<le> 99999"
    and "length (resname a) \<le> 5" "strip (resname a) = resname a"
    and "length (atom_name a) \<le> 5" "strip (atom_name a) = atom_name a"
    and "\<forall>v\<in>{coord_x a, coord_y a, coord_z a}. length (fmt_float v) = 8
           \<and> (\<exists>v'. to_float (strip (fmt_float v)) = Some v' \<and> fmt_float v' = fmt_float v)"
  shows "\<exists>a'. decode to_float (encode fmt_float a) = Inr a'
           \<and> encode fmt_float a' = encode fmt_float a"
proof -
  from assms(9) obtain vx vy vz where
    x: "length (fmt_float (coord_x a)) = 8" "to_float (strip (fmt_float (coord_x a))) = Some vx"
       "fmt_float vx = fmt_float (coord_x a)"
    and y: "length (fmt_float (coord_y a)) = 8" "to_float (strip (fmt_float (coord_y a))) = Some vy"
       "fmt_float vy = fmt_float (coord_y a)"
    and z: "length (fmt_float (coord_z a)) = 8" "to_float (strip (fmt_float (coord_z a))) = Some vz"
       "fmt_float vz = fmt_float (coord_z a)"
    by auto
  have "decode to_float (encode fmt_float a)
         = Inr (a\<lparr>coord_x := vx, coord_y := vy, coord_z := vz\<rparr>)"
    using assms(1-8) x(1,2) y(1,2) z(1,2) by (rule decode_encode)
  moreover have "encode fmt_float (a\<lparr>coord_x := vx, coord_y := vy, coord_z := vz\<rparr>)
               = encode fmt_float a"
    by (simp add: encode_def x(3) y(3) z(3))
  ultimately show ?thesis by blast
qed

end
